theory Spec2Isabelle
  imports Complex_Main
begin

section \<open>Floating-point values\<close>

text \<open>
  The program is a pandas script (\<^verbatim>\<open>households/households.py\<close>): every derived column is
  a float64 column and every scalar it computes is an IEEE 754 binary64 number.  A value is
  therefore either a finite real number, one of the two infinities, or NaN.  Zero is unsigned:
  the sign of a zero is only observable through division, and the one division of the script
  whose divisor can be zero has a divisor that is a sum of products \<open>L * phi\<close>, which is
  \<open>-0.0\<close> only when every household has a negative \<open>phi\<close>.

  Every arithmetic operation takes the rounding function \<open>rnd\<close> that maps the exact real
  result to the value that is stored.  Two roundings are used: \<open>round64\<close>, round to nearest
  (ties to even) for binary64 with gradual underflow and overflow to infinity, which is what
  the script runs on, and \<open>exact\<close>, which stores the exact result.
\<close>

datatype fval = Fin real | PInf | NInf | NaN

fun is_finite :: "fval \<Rightarrow> bool" where
  "is_finite (Fin x) = True"
| "is_finite _ = False"

fun fneg :: "fval \<Rightarrow> fval" where
  "fneg (Fin x) = Fin (- x)"
| "fneg PInf = NInf"
| "fneg NInf = PInf"
| "fneg NaN = NaN"

fun fabs :: "fval \<Rightarrow> fval" where
  "fabs (Fin x) = Fin \<bar>x\<bar>"
| "fabs PInf = PInf"
| "fabs NInf = PInf"
| "fabs NaN = NaN"

text \<open>The IEEE comparisons \<open>\<le>\<close> and \<open><\<close>: false as soon as one side is NaN.\<close>

fun fle :: "fval \<Rightarrow> fval \<Rightarrow> bool" where
  "fle NaN _ = False"
| "fle _ NaN = False"
| "fle NInf _ = True"
| "fle _ PInf = True"
| "fle (Fin x) (Fin y) = (x \<le> y)"
| "fle (Fin x) NInf = False"
| "fle PInf (Fin y) = False"
| "fle PInf NInf = False"

fun flt :: "fval \<Rightarrow> fval \<Rightarrow> bool" where
  "flt NaN _ = False"
| "flt _ NaN = False"
| "flt PInf _ = False"
| "flt _ NInf = False"
| "flt (Fin x) (Fin y) = (x < y)"
| "flt (Fin x) PInf = True"
| "flt NInf (Fin y) = True"
| "flt NInf PInf = True"

fun fadd :: "(real \<Rightarrow> fval) \<Rightarrow> fval \<Rightarrow> fval \<Rightarrow> fval" where
  "fadd rnd NaN _ = NaN"
| "fadd rnd _ NaN = NaN"
| "fadd rnd PInf NInf = NaN"
| "fadd rnd NInf PInf = NaN"
| "fadd rnd PInf _ = PInf"
| "fadd rnd _ PInf = PInf"
| "fadd rnd NInf _ = NInf"
| "fadd rnd _ NInf = NInf"
| "fadd rnd (Fin x) (Fin y) = rnd (x + y)"

definition fsub :: "(real \<Rightarrow> fval) \<Rightarrow> fval \<Rightarrow> fval \<Rightarrow> fval" where
  "fsub rnd a b = fadd rnd a (fneg b)"

fun fmul :: "(real \<Rightarrow> fval) \<Rightarrow> fval \<Rightarrow> fval \<Rightarrow> fval" where
  "fmul rnd NaN _ = NaN"
| "fmul rnd _ NaN = NaN"
| "fmul rnd (Fin x) (Fin y) = rnd (x * y)"
| "fmul rnd (Fin x) PInf = (if x = 0 then NaN else if 0 < x then PInf else NInf)"
| "fmul rnd (Fin x) NInf = (if x = 0 then NaN else if 0 < x then NInf else PInf)"
| "fmul rnd PInf (Fin y) = (if y = 0 then NaN else if 0 < y then PInf else NInf)"
| "fmul rnd NInf (Fin y) = (if y = 0 then NaN else if 0 < y then NInf else PInf)"
| "fmul rnd PInf PInf = PInf"
| "fmul rnd NInf NInf = PInf"
| "fmul rnd PInf NInf = NInf"
| "fmul rnd NInf PInf = NInf"

text \<open>
  Division of numpy float64 scalars does not raise: a finite non-zero number divided by zero
  is an infinity, and \<open>0 / 0\<close> is NaN (numpy only emits a warning).
\<close>

fun fdiv :: "(real \<Rightarrow> fval) \<Rightarrow> fval \<Rightarrow> fval \<Rightarrow> fval" where
  "fdiv rnd NaN _ = NaN"
| "fdiv rnd _ NaN = NaN"
| "fdiv rnd (Fin x) (Fin y) =
     (if y = 0 then (if x = 0 then NaN else if 0 < x then PInf else NInf) else rnd (x / y))"
| "fdiv rnd (Fin x) PInf = Fin 0"
| "fdiv rnd (Fin x) NInf = Fin 0"
| "fdiv rnd PInf (Fin y) = (if 0 \<le> y then PInf else NInf)"
| "fdiv rnd NInf (Fin y) = (if 0 \<le> y then NInf else PInf)"
| "fdiv rnd PInf PInf = NaN"
| "fdiv rnd PInf NInf = NaN"
| "fdiv rnd NInf PInf = NaN"
| "fdiv rnd NInf NInf = NaN"

text \<open>\<^verbatim>\<open>np.maximum\<close>: the larger of the two, and NaN as soon as one of them is NaN.\<close>

fun fmaximum :: "fval \<Rightarrow> fval \<Rightarrow> fval" where
  "fmaximum NaN _ = NaN"
| "fmaximum _ NaN = NaN"
| "fmaximum a b = (if fle a b then b else a)"

subsection \<open>Rounding to binary64\<close>

text \<open>Round to the nearest integer, a tie to the even one.\<close>

definition round_half_even :: "real \<Rightarrow> int" where
  "round_half_even x =
     (if x - of_int \<lfloor>x\<rfloor> < 1 / 2 then \<lfloor>x\<rfloor>
      else if 1 / 2 < x - of_int \<lfloor>x\<rfloor> then \<lfloor>x\<rfloor> + 1
      else if even \<lfloor>x\<rfloor> then \<lfloor>x\<rfloor> else \<lfloor>x\<rfloor> + 1)"

text \<open>\<open>ilog2 a\<close> is \<open>\<lfloor>log\<^sub>2 a\<rfloor>\<close> for a positive \<open>a\<close>: halve or double until \<open>1 \<le> a < 2\<close>.\<close>

function ilog2 :: "real \<Rightarrow> int" where
  "ilog2 a = (if a \<le> 0 then 0
              else if 2 \<le> a then ilog2 (a / 2) + 1
              else if a < 1 then ilog2 (a * 2) - 1
              else 0)"
  by pat_completeness auto
termination
proof (relation "measure (\<lambda>a. nat (2 * \<lceil>1 / a\<rceil> + \<lceil>a\<rceil>))")
  show "wf (measure (\<lambda>a::real. nat (2 * \<lceil>1 / a\<rceil> + \<lceil>a\<rceil>)))" by simp
next
  fix a :: real
  assume "\<not> a \<le> 0" "2 \<le> a"
  then have 1: "\<lceil>1 / (a / 2)\<rceil> = 1" "\<lceil>1 / a\<rceil> = 1"
    by (simp_all add: ceiling_eq_iff field_simps)
  have "\<lceil>a / 2\<rceil> \<le> \<lceil>a - 1\<rceil>" using \<open>2 \<le> a\<close> by (intro ceiling_mono) simp
  then have 2: "\<lceil>a / 2\<rceil> < \<lceil>a\<rceil>" by simp
  have "2 \<le> \<lceil>a\<rceil>" using \<open>2 \<le> a\<close> by (simp add: le_ceiling_iff)
  with 1 2 show "(a / 2, a) \<in> measure (\<lambda>a. nat (2 * \<lceil>1 / a\<rceil> + \<lceil>a\<rceil>))"
    unfolding in_measure by linarith
next
  fix a :: real
  assume a: "\<not> a \<le> 0" "\<not> 2 \<le> a" "a < 1"
  then have 1: "\<lceil>a\<rceil> = 1" "\<lceil>a * 2\<rceil> \<le> 2" "0 < \<lceil>a * 2\<rceil>"
    by (simp_all add: ceiling_eq_iff ceiling_le_iff)
  have x: "1 < 1 / a" using a by (simp add: field_simps)
  have "\<lceil>1 / (a * 2)\<rceil> \<le> \<lceil>1 / a\<rceil> - 1"
  proof (cases "1 / a \<le> 2")
    case True
    then have "\<lceil>1 / a\<rceil> = 2" using x by (simp add: ceiling_eq_iff)
    moreover have "\<lceil>1 / (a * 2)\<rceil> = 1" using True x a by (simp add: ceiling_eq_iff field_simps)
    ultimately show ?thesis by simp
  next
    case False
    then have "1 / (a * 2) \<le> 1 / a - 1" using a by (simp add: field_simps)
    then have "\<lceil>1 / (a * 2)\<rceil> \<le> \<lceil>1 / a - 1\<rceil>" by (rule ceiling_mono)
    then show ?thesis by simp
  qed
  moreover have "0 < \<lceil>1 / (a * 2)\<rceil>" using a by simp
  ultimately show "(a * 2, a) \<in> measure (\<lambda>a. nat (2 * \<lceil>1 / a\<rceil> + \<lceil>a\<rceil>))"
    using 1 unfolding in_measure by linarith
qed

declare ilog2.simps [simp del]

text \<open>
  A binary64 number has a 53-bit significand and an exponent of at least \<open>-1022\<close>: the
  numbers between \<open>2\<^sup>e\<close> and \<open>2\<^sup>e\<^sup>+\<^sup>1\<close> are the multiples of \<open>2\<^sup>e\<^sup>-\<^sup>5\<^sup>2\<close>, and below
  \<open>2\<^sup>-\<^sup>1\<^sup>0\<^sup>2\<^sup>2\<close> the spacing stays \<open>2\<^sup>-\<^sup>1\<^sup>0\<^sup>7\<^sup>4\<close> (subnormal numbers).  \<open>quantum a\<close> is the
  spacing at the positive number \<open>a\<close>.
\<close>

definition quantum :: "real \<Rightarrow> real" where
  "quantum a = 2 powi (max (ilog2 a) (- 1022) - 52)"

definition round_to :: "real \<Rightarrow> real \<Rightarrow> real" where
  "round_to q a = of_int (round_half_even (a / q)) * q"

text \<open>A magnitude that rounds to \<open>2\<^sup>1\<^sup>0\<^sup>2\<^sup>4\<close> or more is an infinity.\<close>

definition overflow :: "bool \<Rightarrow> real \<Rightarrow> fval" where
  "overflow pos y = (if 2 ^ 1024 \<le> y then (if pos then PInf else NInf)
                     else Fin (if pos then y else - y))"

definition round64 :: "real \<Rightarrow> fval" where
  "round64 x = (if x = 0 then Fin 0
                else overflow (0 < x) (round_to (quantum \<bar>x\<bar>) \<bar>x\<bar>))"

definition exact :: "real \<Rightarrow> fval" where
  "exact x = Fin x"

text \<open>An integer that meets a float is converted to float64 first.\<close>

definition of_int_f :: "(real \<Rightarrow> fval) \<Rightarrow> int \<Rightarrow> fval" where
  "of_int_f rnd i = rnd (of_int i)"

section \<open>Global parameters\<close>

definition MAX_LIFE_EXPECTANCY :: int where
  "MAX_LIFE_EXPECTANCY = 100"

text \<open>The literal \<^verbatim>\<open>0.3\<close> is the binary64 number nearest to \<open>3/10\<close>.\<close>

definition DEPENDENT_WEIGHT :: "(real \<Rightarrow> fval) \<Rightarrow> fval" where
  "DEPENDENT_WEIGHT rnd = rnd (3 / 10)"

section \<open>Core economic functions\<close>

text \<open>\<^verbatim>\<open>return 1 + weight * dependents\<close>\<close>

definition equivalence_scale :: "(real \<Rightarrow> fval) \<Rightarrow> int \<Rightarrow> fval \<Rightarrow> fval" where
  "equivalence_scale rnd dependents weight =
     fadd rnd (of_int_f rnd 1) (fmul rnd weight (of_int_f rnd dependents))"

text \<open>\<^verbatim>\<open>return max(0, max_age - age)\<close>, on Python integers.\<close>

definition remaining_life_years :: "int \<Rightarrow> int \<Rightarrow> int" where
  "remaining_life_years age max_age = max 0 (max_age - age)"

text \<open>\<^verbatim>\<open>return 1.0 / np.maximum(consumption_per_year, 1e-10)\<close>\<close>

definition marginal_utility :: "(real \<Rightarrow> fval) \<Rightarrow> fval \<Rightarrow> fval" where
  "marginal_utility rnd consumption_per_year =
     fdiv rnd (Fin 1) (fmaximum consumption_per_year (rnd (1 / 10 ^ 10)))"

section \<open>The household table\<close>

text \<open>
  A loaded row: the three columns of the CSV file and the \<^verbatim>\<open>household_id\<close> that
  \<^verbatim>\<open>load_household_data\<close> adds.
\<close>

record household =
  household_id :: int
  age :: int
  dependents :: int
  net_worth :: fval

text \<open>
  A row of the table after the computation: the loaded columns and the eight derived ones
  (\<open>mu\<close> is the column \<^verbatim>\<open>marginal_utility\<close>).
\<close>

record household_row = household +
  phi :: fval
  L :: int
  L_phi :: fval
  target_lifetime_consumption :: fval
  annual_consumption :: fval
  transfer :: fval
  net_worth_after_redistribution :: fval
  mu :: fval

text \<open>
  \<^verbatim>\<open>Series.sum()\<close> skips NaN entries (\<^verbatim>\<open>skipna=True\<close>) and adds the others; the sum of
  no entries is \<open>0\<close>.  The entries are added from left to right here; numpy may associate
  the additions of a longer column differently, which matters under \<open>round64\<close> only.
\<close>

definition fsum :: "(real \<Rightarrow> fval) \<Rightarrow> fval list \<Rightarrow> fval" where
  "fsum rnd xs = foldl (fadd rnd) (Fin 0) (filter (\<lambda>x. x \<noteq> NaN) xs)"

text \<open>
  \<^verbatim>\<open>np.isclose(a, b)\<close> with its defaults \<^verbatim>\<open>rtol=1e-05\<close>, \<^verbatim>\<open>atol=1e-08\<close>:
  \<open>|a - b| \<le> atol + rtol * |b|\<close> on finite numbers, equality otherwise (NaN is close to
  nothing).
\<close>

definition isclose :: "(real \<Rightarrow> fval) \<Rightarrow> fval \<Rightarrow> fval \<Rightarrow> bool" where
  "isclose rnd a b =
     (if is_finite a \<and> is_finite b
      then fle (fabs (fsub rnd a b))
               (fadd rnd (rnd (1 / 10 ^ 8)) (fmul rnd (rnd (1 / 10 ^ 5)) (fabs b)))
      else a \<noteq> NaN \<and> a = b)"

subsection \<open>Adjustment factors\<close>

definition phi_of :: "(real \<Rightarrow> fval) \<Rightarrow> household \<Rightarrow> fval" where
  "phi_of rnd h = equivalence_scale rnd (dependents h) (DEPENDENT_WEIGHT rnd)"

definition L_of :: "household \<Rightarrow> int" where
  "L_of h = remaining_life_years (age h) MAX_LIFE_EXPECTANCY"

definition L_phi_of :: "(real \<Rightarrow> fval) \<Rightarrow> household \<Rightarrow> fval" where
  "L_phi_of rnd h = fmul rnd (of_int_f rnd (L_of h)) (phi_of rnd h)"

subsection \<open>Solving for the equalized consumption rate\<close>

definition TOTAL_RESOURCES :: "(real \<Rightarrow> fval) \<Rightarrow> household list \<Rightarrow> fval" where
  "TOTAL_RESOURCES rnd hs = fsum rnd (map net_worth hs)"

definition total_adjusted_life :: "(real \<Rightarrow> fval) \<Rightarrow> household list \<Rightarrow> fval" where
  "total_adjusted_life rnd hs = fsum rnd (map (L_phi_of rnd) hs)"

definition c_bar :: "(real \<Rightarrow> fval) \<Rightarrow> household list \<Rightarrow> fval" where
  "c_bar rnd hs = fdiv rnd (TOTAL_RESOURCES rnd hs) (total_adjusted_life rnd hs)"

subsection \<open>Target allocations and transfers\<close>

text \<open>The derived columns of one row, given the shared scalar \<open>c\<close>.\<close>

definition target_of :: "(real \<Rightarrow> fval) \<Rightarrow> fval \<Rightarrow> household \<Rightarrow> fval" where
  "target_of rnd c h = fmul rnd c (L_phi_of rnd h)"

definition transfer_of :: "(real \<Rightarrow> fval) \<Rightarrow> fval \<Rightarrow> household \<Rightarrow> fval" where
  "transfer_of rnd c h = fsub rnd (target_of rnd c h) (net_worth h)"

definition allocate :: "(real \<Rightarrow> fval) \<Rightarrow> fval \<Rightarrow> household \<Rightarrow> household_row" where
  "allocate rnd c h =
     \<lparr> household_id = household_id h,
       age = age h,
       dependents = dependents h,
       net_worth = net_worth h,
       phi = phi_of rnd h,
       L = L_of h,
       L_phi = L_phi_of rnd h,
       target_lifetime_consumption = target_of rnd c h,
       annual_consumption = fmul rnd c (phi_of rnd h),
       transfer = transfer_of rnd c h,
       net_worth_after_redistribution = fadd rnd (net_worth h) (transfer_of rnd c h),
       mu = marginal_utility rnd c \<rparr>"

definition households_table :: "(real \<Rightarrow> fval) \<Rightarrow> household list \<Rightarrow> household_row list" where
  "households_table rnd hs = map (allocate rnd (c_bar rnd hs)) hs"

subsection \<open>Consistency checks\<close>

datatype error = Allocation_Assertion | Transfers_Assertion

text \<open>
  The script up to its export: the two \<^verbatim>\<open>assert\<close> statements raise
  \<^verbatim>\<open>AssertionError\<close>, and nothing is printed or exported after a failed one.
\<close>

definition run :: "(real \<Rightarrow> fval) \<Rightarrow> household list \<Rightarrow> error + household_row list" where
  "run rnd hs =
     (if \<not> isclose rnd (fsum rnd (map target_lifetime_consumption (households_table rnd hs)))
                      (TOTAL_RESOURCES rnd hs)
      then Inl Allocation_Assertion
      else if \<not> isclose rnd (fsum rnd (map transfer (households_table rnd hs))) (of_int_f rnd 0)
      then Inl Transfers_Assertion
      else Inr (households_table rnd hs))"

section \<open>Example tables\<close>

text \<open>The two households of the concrete scenario of the specification.\<close>

definition scenario :: "household list" where
  "scenario = [\<lparr>household_id = 1, age = 30, dependents = 0, net_worth = Fin 100\<rparr>,
               \<lparr>household_id = 2, age = 30, dependents = 2, net_worth = Fin 100\<rparr>]"

text \<open>\<open>approx v x tol\<close>: the value \<open>v\<close> is a finite number within \<open>tol\<close> of \<open>x\<close>.\<close>

definition approx :: "fval \<Rightarrow> real \<Rightarrow> real \<Rightarrow> bool" where
  "approx v x tol = (case v of Fin y \<Rightarrow> \<bar>y - x\<bar> \<le> tol | _ \<Rightarrow> False)"

text \<open>
  A household aged 99 that holds all the wealth, 3, and one aged 0 that holds nothing: the
  target of the first is far smaller than its net worth.
\<close>

definition elder_and_newborn :: "household list" where
  "elder_and_newborn = [\<lparr>household_id = 1, age = 99, dependents = 0, net_worth = Fin 3\<rparr>,
                        \<lparr>household_id = 2, age = 0, dependents = 0, net_worth = Fin 0\<rparr>]"








text \<open>The number a finite value stands for.\<close>

definition fin_value :: "fval \<Rightarrow> real" where
  "fin_value v = (case v of Fin x \<Rightarrow> x | _ \<Rightarrow> 0)"


text \<open>
  What the proofs below need of a rounding function: it is monotone and it stores \<open>0\<close> and
  \<open>1\<close> as they are.
\<close>

definition rounding_mono :: "(real \<Rightarrow> fval) \<Rightarrow> bool" where
  "rounding_mono rnd \<longleftrightarrow>
     (\<forall>x y. x \<le> y \<longrightarrow> fle (rnd x) (rnd y)) \<and> rnd 0 = Fin 0 \<and> rnd 1 = Fin 1"

section \<open>Properties of the rounding\<close>

lemma two_powi_pos: "0 < (2::real) powi k"
  by (simp add: zero_less_power_int)

lemma two_powi_Suc: "(2::real) powi (k + 1) = 2 * 2 powi k"
  by (simp add: power_int_add_1')

lemma two_powi_pred: "(2::real) powi (k - 1) = 2 powi k / 2"
  using two_powi_Suc [of "k - 1"] by simp

lemma ilog2_bounds:
  "0 < a \<Longrightarrow> 2 powi (ilog2 a) \<le> a \<and> a < 2 powi (ilog2 a + 1)"
proof (induction a rule: ilog2.induct)
  case (1 a)
  show ?case
  proof (cases "2 \<le> a")
    case True
    then have eq: "ilog2 a = ilog2 (a / 2) + 1"
      by (subst ilog2.simps) simp
    have "2 powi (ilog2 (a / 2)) \<le> a / 2 \<and> a / 2 < 2 powi (ilog2 (a / 2) + 1)"
      using 1(1) True "1.prems" by simp
    then show ?thesis
      unfolding eq two_powi_Suc by simp
  next
    case False
    show ?thesis
    proof (cases "a < 1")
      case True
      then have eq: "ilog2 a = ilog2 (a * 2) - 1"
        using False "1.prems" by (subst ilog2.simps) simp
      have "2 powi (ilog2 (a * 2)) \<le> a * 2 \<and> a * 2 < 2 powi (ilog2 (a * 2) + 1)"
        using 1(2) True False "1.prems" by simp
      then show ?thesis
        unfolding eq two_powi_pred two_powi_Suc by simp
    next
      case ge1: False
      then have "ilog2 a = 0"
        using False "1.prems" by (subst ilog2.simps) simp
      then show ?thesis using False ge1 by simp
    qed
  qed
qed

lemma two_powi_le_iff: "(2::real) powi m \<le> 2 powi n \<longleftrightarrow> m \<le> n"
proof
  assume le: "(2::real) powi m \<le> 2 powi n"
  show "m \<le> n"
  proof (rule ccontr)
    assume "\<not> m \<le> n"
    then have "(2::real) powi n < 2 powi m"
      by (intro power_int_strict_increasing) simp_all
    with le show False by simp
  qed
next
  assume "m \<le> n"
  then show "(2::real) powi m \<le> 2 powi n"
    by (intro power_int_increasing) simp_all
qed

lemma two_powi_less_iff: "(2::real) powi m < 2 powi n \<longleftrightarrow> m < n"
  using two_powi_le_iff [of n m] by (simp add: not_le [symmetric])

lemma ilog2_eqI:
  assumes "2 powi e \<le> a" "a < 2 powi (e + 1)"
  shows "ilog2 a = e"
proof -
  have pos: "0 < a" using two_powi_pos [of e] assms(1) by linarith
  from ilog2_bounds [OF pos] have b: "2 powi (ilog2 a) \<le> a" "a < 2 powi (ilog2 a + 1)"
    by simp_all
  have "(2::real) powi e < 2 powi (ilog2 a + 1)" using assms(1) b(2) by linarith
  then have 1: "e < ilog2 a + 1" by (simp add: two_powi_less_iff)
  have "(2::real) powi (ilog2 a) < 2 powi (e + 1)" using assms(2) b(1) by linarith
  then have 2: "ilog2 a < e + 1" by (simp add: two_powi_less_iff)
  from 1 2 show ?thesis by simp
qed

lemma ilog2_mono:
  assumes "0 < a" "a \<le> b"
  shows "ilog2 a \<le> ilog2 b"
proof -
  have "0 < b" using assms by simp
  from ilog2_bounds [OF assms(1)] ilog2_bounds [OF this]
  have "(2::real) powi (ilog2 a) < 2 powi (ilog2 b + 1)" using assms(2) by linarith
  then show ?thesis by (simp add: two_powi_less_iff)
qed

lemma round_half_even_of_int [simp]: "round_half_even (of_int n) = n"
  by (simp add: round_half_even_def)

lemma round_half_even_floor: "\<lfloor>x\<rfloor> \<le> round_half_even x"
  by (simp add: round_half_even_def)

lemma round_half_even_ceiling: "round_half_even x \<le> \<lceil>x\<rceil>"
  unfolding round_half_even_def
  by (auto simp add: ceiling_altdef)

lemma round_half_even_ge:
  assumes "of_int n \<le> x"
  shows "n \<le> round_half_even x"
proof -
  have "n \<le> \<lfloor>x\<rfloor>" using assms by (simp add: le_floor_iff)
  then show ?thesis using round_half_even_floor [of x] by linarith
qed

lemma round_half_even_le:
  assumes "x \<le> of_int n"
  shows "round_half_even x \<le> n"
proof -
  have "\<lceil>x\<rceil> \<le> n" using assms by (simp add: ceiling_le_iff)
  then show ?thesis using round_half_even_ceiling [of x] by linarith
qed

lemma round_half_even_mono:
  assumes "x \<le> y"
  shows "round_half_even x \<le> round_half_even y"
proof (cases "\<lfloor>x\<rfloor> = \<lfloor>y\<rfloor>")
  case True
  then show ?thesis using assms
    unfolding round_half_even_def by auto
next
  case False
  then have "\<lfloor>x\<rfloor> < \<lfloor>y\<rfloor>" using floor_mono [OF assms] by simp
  then have "\<lfloor>x\<rfloor> + 1 \<le> \<lfloor>y\<rfloor>" by simp
  moreover have "round_half_even x \<le> \<lfloor>x\<rfloor> + 1"
    unfolding round_half_even_def by simp
  ultimately show ?thesis using round_half_even_floor [of y] by linarith
qed

lemma quantum_pos: "0 < quantum a"
  by (simp add: quantum_def two_powi_pos)

lemma two_powi_split: "(2::real) powi (e + 1) = 2 ^ 53 * 2 powi (e - 52)"
proof -
  have "(2::real) powi (53 + (e - 52)) = 2 powi 53 * 2 powi (e - 52)"
    by (rule power_int_add) simp
  then show ?thesis by (simp add: algebra_simps)
qed

lemma two_powi_split': "(2::real) powi e = 2 ^ 52 * 2 powi (e - 52)"
proof -
  have "(2::real) powi (52 + (e - 52)) = 2 powi 52 * 2 powi (e - 52)"
    by (rule power_int_add) simp
  then show ?thesis by (simp add: algebra_simps)
qed

lemma round_to_upper:
  assumes "0 < a"
  shows "round_to (quantum a) a \<le> 2 powi (max (ilog2 a) (- 1022) + 1)"
proof -
  define e where "e = max (ilog2 a) (- 1022)"
  have q: "quantum a = 2 powi (e - 52)" by (simp add: quantum_def e_def)
  have "a < 2 powi (ilog2 a + 1)" using ilog2_bounds [OF assms] by simp
  also have "\<dots> \<le> 2 powi (e + 1)" by (simp add: two_powi_le_iff e_def)
  finally have "a < 2 ^ 53 * quantum a" using two_powi_split [of e] by (simp add: q)
  then have "a / quantum a \<le> of_int (2 ^ 53)"
    using quantum_pos [of a] by (simp add: field_simps)
  then have "round_half_even (a / quantum a) \<le> 2 ^ 53" by (rule round_half_even_le)
  then have "real_of_int (round_half_even (a / quantum a)) \<le> 2 ^ 53"
    by (metis of_int_le_iff of_int_numeral of_int_power)
  then have "round_to (quantum a) a \<le> 2 ^ 53 * quantum a"
    unfolding round_to_def using quantum_pos [of a] by (intro mult_right_mono) simp_all
  then show ?thesis using two_powi_split [of e] by (simp add: q e_def)
qed

lemma round_to_lower:
  assumes "0 < a" "- 1022 \<le> ilog2 a"
  shows "2 powi (ilog2 a) \<le> round_to (quantum a) a"
proof -
  have q: "quantum a = 2 powi (ilog2 a - 52)" using assms(2) by (simp add: quantum_def max_def)
  have "2 ^ 52 * quantum a \<le> a"
    using ilog2_bounds [OF assms(1)] two_powi_split' [of "ilog2 a"] by (simp add: q)
  then have "of_int (2 ^ 52) \<le> a / quantum a"
    using quantum_pos [of a] by (simp add: field_simps)
  then have "2 ^ 52 \<le> round_half_even (a / quantum a)" by (rule round_half_even_ge)
  then have "2 ^ 52 \<le> real_of_int (round_half_even (a / quantum a))"
    by (metis of_int_le_iff of_int_numeral of_int_power)
  then have "2 ^ 52 * quantum a \<le> round_to (quantum a) a"
    unfolding round_to_def using quantum_pos [of a] by (intro mult_right_mono) simp_all
  then show ?thesis using two_powi_split' [of "ilog2 a"] by (simp add: q)
qed

lemma round_to_nonneg: "0 \<le> a \<Longrightarrow> 0 \<le> round_to (quantum a) a"
  unfolding round_to_def using quantum_pos [of a]
  by (intro mult_nonneg_nonneg) (simp_all add: round_half_even_ge)

lemma round_to_mono:
  assumes "0 < a" "a \<le> b"
  shows "round_to (quantum a) a \<le> round_to (quantum b) b"
proof -
  define ea where "ea = max (ilog2 a) (- 1022)"
  define eb where "eb = max (ilog2 b) (- 1022)"
  have b: "0 < b" using assms by simp
  have le: "ea \<le> eb" using ilog2_mono [OF assms] by (simp add: ea_def eb_def)
  show ?thesis
  proof (cases "ea = eb")
    case True
    then have q: "quantum a = quantum b" by (simp add: quantum_def ea_def eb_def)
    have "a / quantum b \<le> b / quantum b"
      using assms(2) quantum_pos [of b] by (simp add: divide_right_mono)
    then have "round_half_even (a / quantum b) \<le> round_half_even (b / quantum b)"
      by (rule round_half_even_mono)
    then show ?thesis
      unfolding round_to_def q using quantum_pos [of b] by (intro mult_right_mono) simp_all
  next
    case False
    then have lt: "ea + 1 \<le> eb" using le by simp
    then have eb: "eb = ilog2 b" "- 1022 \<le> ilog2 b" by (simp_all add: ea_def eb_def)
    have "round_to (quantum a) a \<le> 2 powi (ea + 1)"
      using round_to_upper [OF assms(1)] by (simp add: ea_def)
    also have "\<dots> \<le> 2 powi eb" using lt by (simp add: two_powi_le_iff)
    also have "\<dots> \<le> round_to (quantum b) b"
      using round_to_lower [OF b eb(2)] by (simp add: eb(1))
    finally show ?thesis .
  qed
qed

lemma fle_refl: "v \<noteq> NaN \<Longrightarrow> fle v v"
  by (cases v) simp_all

lemma fle_trans: "fle a b \<Longrightarrow> fle b c \<Longrightarrow> fle a c"
  by (cases a; cases b; cases c) simp_all


lemma overflow_pos_mono: "y1 \<le> y2 \<Longrightarrow> fle (overflow True y1) (overflow True y2)"
  by (simp add: overflow_def)

lemma overflow_neg_mono: "y1 \<le> y2 \<Longrightarrow> fle (overflow False y2) (overflow False y1)"
  by (simp add: overflow_def)

lemma overflow_pos_nonneg: "0 \<le> y \<Longrightarrow> fle (Fin 0) (overflow True y)"
  by (simp add: overflow_def)

lemma overflow_neg_nonpos: "0 \<le> y \<Longrightarrow> fle (overflow False y) (Fin 0)"
  by (simp add: overflow_def)

lemma round64_nonneg: "0 \<le> x \<Longrightarrow> fle (Fin 0) (round64 x)"
  by (simp add: round64_def overflow_pos_nonneg round_to_nonneg)

lemma round64_nonpos: "x \<le> 0 \<Longrightarrow> fle (round64 x) (Fin 0)"
  by (simp add: round64_def overflow_neg_nonpos round_to_nonneg)

lemma round64_mono:
  assumes "x \<le> y"
  shows "fle (round64 x) (round64 y)"
proof -
  consider "0 < x" | "y < 0" | "x \<le> 0" "0 \<le> y" using assms by linarith
  then show ?thesis
  proof cases
    case 1
    then have "round_to (quantum x) x \<le> round_to (quantum y) y"
      using assms by (intro round_to_mono)
    then show ?thesis using 1 assms by (simp add: round64_def overflow_pos_mono)
  next
    case 2
    then have "round_to (quantum (- y)) (- y) \<le> round_to (quantum (- x)) (- x)"
      using assms by (intro round_to_mono) simp_all
    then show ?thesis using 2 assms by (simp add: round64_def overflow_neg_mono)
  next
    case 3
    then show ?thesis
      using fle_trans [OF round64_nonpos round64_nonneg] by simp
  qed
qed

lemma round64_0: "round64 0 = Fin 0"
  by (simp add: round64_def)

lemma round64_1: "round64 1 = Fin 1"
  by (simp add: round64_def ilog2.simps round_half_even_def quantum_def round_to_def overflow_def)

lemmas round64_eval =
  round64_def ilog2.simps round_half_even_def quantum_def round_to_def overflow_def

lemma rounding_mono_round64: "rounding_mono round64"
  by (simp add: rounding_mono_def round64_mono round64_0 round64_1)

lemma rounding_mono_exact: "rounding_mono exact"
  by (simp add: rounding_mono_def exact_def)

lemma rounding_mono_nonneg: "rounding_mono rnd \<Longrightarrow> 0 \<le> x \<Longrightarrow> fle (Fin 0) (rnd x)"
  unfolding rounding_mono_def by metis

lemma rounding_mono_nonpos: "rounding_mono rnd \<Longrightarrow> x \<le> 0 \<Longrightarrow> fle (rnd x) (Fin 0)"
  unfolding rounding_mono_def by metis

lemma rounding_mono_ge1: "rounding_mono rnd \<Longrightarrow> 1 \<le> x \<Longrightarrow> fle (Fin 1) (rnd x)"
  unfolding rounding_mono_def by metis


lemma fle_Fin_cases:
  assumes "fle (Fin x) v"
  obtains y where "v = Fin y" "x \<le> y" | "v = PInf"
  using assms by (cases v) simp_all

lemma equivalence_scale_ge1:
  assumes rnd: "rounding_mono rnd" and d: "0 \<le> d"
    and w: "0 < w \<or> (0 \<le> w \<and> is_finite (rnd (of_int d)))"
  shows "fle (Fin 1) (equivalence_scale rnd d (Fin w))"
proof -
  have one: "rnd 1 = Fin 1" using rnd by (simp add: rounding_mono_def)
  have "fle (Fin 0) (rnd (of_int d))" using rnd d by (simp add: rounding_mono_nonneg)
  then have "fle (Fin 0) (fmul rnd (Fin w) (rnd (of_int d)))"
  proof (cases rule: fle_Fin_cases)
    case (1 y)
    then have "0 \<le> w * y" using w by (auto intro: mult_nonneg_nonneg)
    then show ?thesis using 1 rnd by (simp add: rounding_mono_nonneg)
  next
    case 2
    then show ?thesis using w by auto
  qed
  then have "fle (Fin 1) (fadd rnd (Fin 1) (fmul rnd (Fin w) (rnd (of_int d))))"
  proof (cases rule: fle_Fin_cases)
    case (1 z)
    then show ?thesis using rnd by (simp add: rounding_mono_ge1)
  next
    case 2
    then show ?thesis by simp
  qed
  then show ?thesis by (simp add: equivalence_scale_def of_int_f_def one)
qed

lemma round64_int64_finite:
  assumes "0 \<le> d" "d < 2 ^ 63"
  shows "is_finite (round64 (of_int d))"
proof -
  have top: "round64 (2 ^ 63) = Fin (2 ^ 63)" by (simp add: round64_eval)
  have "real_of_int d \<le> 2 ^ 63"
    using assms(2) by (metis less_imp_le of_int_le_iff of_int_numeral of_int_power)
  then have "fle (round64 (of_int d)) (Fin (2 ^ 63))"
    using round64_mono [of "of_int d" "2 ^ 63"] by (simp only: top)
  moreover have "fle (Fin 0) (round64 (of_int d))" using assms(1) by (simp add: round64_nonneg)
  ultimately show ?thesis by (cases "round64 (of_int d)") simp_all
qed

lemma run_Inr: "run rnd hs = Inr t \<Longrightarrow> t = households_table rnd hs"
  by (auto simp add: run_def split: if_splits)

lemma in_table:
  assumes "r \<in> set (households_table rnd hs)"
  obtains h where "h \<in> set hs" "r = allocate rnd (c_bar rnd hs) h"
  using assms by (auto simp add: households_table_def)


section \<open>The concrete scenario\<close>

lemmas pipeline_defs = households_table_def allocate_def target_of_def transfer_of_def c_bar_def
  total_adjusted_life_def TOTAL_RESOURCES_def L_phi_of_def L_of_def phi_of_def fsum_def
  marginal_utility_def remaining_life_years_def equivalence_scale_def DEPENDENT_WEIGHT_def
  MAX_LIFE_EXPECTANCY_def of_int_f_def fsub_def

lemma weight64: "DEPENDENT_WEIGHT round64 = Fin (5404319552844595 / 18014398509481984)"
  by (simp add: DEPENDENT_WEIGHT_def round64_eval)

lemma scenario_c_bar: "c_bar round64 scenario = Fin (2474505289764009 / 2251799813685248)"
  by (simp add: scenario_def pipeline_defs round64_eval)

lemma scenario_table:
  "households_table round64 scenario =
     [\<lparr>household_id = 1, age = 30, dependents = 0, net_worth = Fin 100,
       phi = Fin 1, L = 70, L_phi = Fin 70,
       target_lifetime_consumption = Fin (2706490160679385 / 35184372088832),
       annual_consumption = Fin (2474505289764009 / 2251799813685248),
       transfer = Fin (- (811947048203815 / 35184372088832)),
       net_worth_after_redistribution = Fin (2706490160679385 / 35184372088832),
       mu = Fin (4098275660907151 / 4503599627370496)\<rparr>,
      \<lparr>household_id = 2, age = 30, dependents = 2, net_worth = Fin 100,
       phi = Fin (3602879701896397 / 2251799813685248), L = 70, L_phi = Fin 112,
       target_lifetime_consumption = Fin (541298032135877 / 4398046511104),
       annual_consumption = Fin (7918416927244829 / 4503599627370496),
       transfer = Fin (101493381025477 / 4398046511104),
       net_worth_after_redistribution = Fin (541298032135877 / 4398046511104),
       mu = Fin (4098275660907151 / 4503599627370496)\<rparr>]"
  unfolding households_table_def scenario_c_bar
  by (simp add: scenario_def allocate_def target_of_def transfer_of_def L_phi_of_def L_of_def
      phi_of_def marginal_utility_def remaining_life_years_def equivalence_scale_def weight64
      MAX_LIFE_EXPECTANCY_def of_int_f_def fsub_def round64_eval)

lemma scenario_run: "run round64 scenario = Inr (households_table round64 scenario)"
  unfolding run_def scenario_table
  by (simp add: TOTAL_RESOURCES_def scenario_def isclose_def fsum_def fsub_def of_int_f_def
      round64_eval)

section \<open>Properties of the computed table\<close>

text \<open>
  C3: all households' \<open>marginal_utility\<close> values are pairwise equal, exactly: the column is
  one scalar, computed once from the shared \<open>c_bar\<close> and broadcast.  (Equality is identity of
  the stored value here; that value is NaN when \<open>c_bar\<close> is.)
\<close>

theorem marginal_utility_equalized:
  "map mu (households_table rnd hs) = replicate (length hs) (marginal_utility rnd (c_bar rnd hs))
   \<and> (\<forall>r1 \<in> set (households_table rnd hs). \<forall>r2 \<in> set (households_table rnd hs). mu r1 = mu r2)"
proof
  show "map mu (households_table rnd hs)
        = replicate (length hs) (marginal_utility rnd (c_bar rnd hs))"
    by (simp add: households_table_def allocate_def comp_def map_replicate_const)
  show "\<forall>r1 \<in> set (households_table rnd hs). \<forall>r2 \<in> set (households_table rnd hs). mu r1 = mu r2"
    by (auto simp add: households_table_def allocate_def)
qed

theorem marginal_utility_equalized_witness:
  "households_table round64 scenario ! 0 \<in> set (households_table round64 scenario)
   \<and> households_table round64 scenario ! 1 \<in> set (households_table round64 scenario)
   \<and> mu (households_table round64 scenario ! 0) = mu (households_table round64 scenario ! 1)"
proof -
  have 0: "households_table round64 scenario ! 0 \<in> set (households_table round64 scenario)"
    and 1: "households_table round64 scenario ! 1 \<in> set (households_table round64 scenario)"
    by (simp_all add: households_table_def scenario_def)
  show ?thesis
    using 0 1 marginal_utility_equalized [of round64 scenario] by blast
qed

text \<open>
  C10: the computation only adds columns: \<open>household_id\<close>, \<open>age\<close>, \<open>dependents\<close> and
  \<open>net_worth\<close> of every row of the final table are those that were loaded, in the same order.
\<close>

theorem loaded_columns_unchanged:
  "map household_id (households_table rnd hs) = map household_id hs
   \<and> map age (households_table rnd hs) = map age hs
   \<and> map dependents (households_table rnd hs) = map dependents hs
   \<and> map net_worth (households_table rnd hs) = map net_worth hs
   \<and> (\<forall>t. run rnd hs = Inr t \<longrightarrow> t = households_table rnd hs)"
proof -
  have "\<forall>t. run rnd hs = Inr t \<longrightarrow> t = households_table rnd hs"
    by (simp add: run_Inr)
  then show ?thesis
    by (simp add: households_table_def allocate_def comp_def)
qed

theorem loaded_columns_unchanged_witness:
  "run round64 scenario = Inr (households_table round64 scenario)
   \<and> map net_worth (households_table round64 scenario) = [Fin 100, Fin 100]
   \<and> map age (households_table round64 scenario) = [30, 30]"
  using loaded_columns_unchanged [of round64 scenario] scenario_run
  by (simp add: scenario_def)

text \<open>
  C7: \<open>phi = 1 + weight * dependents\<close> is at least \<open>1\<close> when \<open>dependents \<ge> 0\<close> (for a weight
  that is not negative and a count that fits the int64 column), \<open>L = max(0, max_age - age)\<close>
  is never negative, whatever the age, and both bounds hold in every row of the computed
  table.
\<close>

theorem adjustment_factor_bounds:
  "(0 \<le> w \<and> 0 \<le> d \<and> d < 2 ^ 63 \<longrightarrow> fle (Fin 1) (equivalence_scale round64 d (Fin w)))
   \<and> 0 \<le> remaining_life_years a m
   \<and> (r \<in> set (households_table round64 hs) \<longrightarrow>
        0 \<le> L r \<and> (0 \<le> dependents r \<longrightarrow> fle (Fin 1) (phi r)))"
proof (intro conjI impI)
  assume "0 \<le> w \<and> 0 \<le> d \<and> d < 2 ^ 63"
  then show "fle (Fin 1) (equivalence_scale round64 d (Fin w))"
    by (intro equivalence_scale_ge1 rounding_mono_round64) (simp_all add: round64_int64_finite)
next
  show "0 \<le> remaining_life_years a m" by (simp add: remaining_life_years_def)
next
  assume "r \<in> set (households_table round64 hs)"
  then show "0 \<le> L r"
    by (auto simp add: households_table_def allocate_def L_of_def remaining_life_years_def)
next
  assume r: "r \<in> set (households_table round64 hs)" and d: "0 \<le> dependents r"
  from r obtain h where h: "r = allocate round64 (c_bar round64 hs) h" by (rule in_table)
  have "fle (Fin 1) (equivalence_scale round64 (dependents h)
                       (Fin (5404319552844595 / 18014398509481984)))"
    using d h by (intro equivalence_scale_ge1 rounding_mono_round64) (simp_all add: allocate_def)
  then show "fle (Fin 1) (phi r)" by (simp add: h allocate_def phi_of_def weight64)
qed

theorem adjustment_factor_bounds_witness:
  "(0::real) \<le> 3 / 10 \<and> (0::int) \<le> 2 \<and> (2::int) < 2 ^ 63
   \<and> households_table round64 scenario ! 1 \<in> set (households_table round64 scenario)
   \<and> 0 \<le> dependents (households_table round64 scenario ! 1)
   \<and> fle (Fin 1) (equivalence_scale round64 2 (Fin (3 / 10)))
   \<and> 0 \<le> remaining_life_years 130 100
   \<and> 0 \<le> L (households_table round64 scenario ! 1)
   \<and> fle (Fin 1) (phi (households_table round64 scenario ! 1))"
proof -
  have m: "households_table round64 scenario ! 1 \<in> set (households_table round64 scenario)"
    and d: "0 \<le> dependents (households_table round64 scenario ! 1)"
    by (simp_all add: households_table_def scenario_def allocate_def)
  show ?thesis
    using m d adjustment_factor_bounds
      [of "3 / 10" 2 130 100 "households_table round64 scenario ! 1" scenario]
    by simp
qed

lemma round64_8_5: "round64 (16 / 10) = Fin (3602879701896397 / 2251799813685248)"
  by (simp add: round64_eval)

lemma round64_200_182: "round64 (200 / 182) = Fin (2474505289764009 / 2251799813685248)"
  by (simp add: round64_eval)

lemma scenario_sums:
  "TOTAL_RESOURCES round64 scenario = Fin 200"
  "total_adjusted_life round64 scenario = Fin 182"
  by (simp_all add: scenario_def pipeline_defs round64_eval)

lemma scenario_transfer_sum:
  "fsum round64 (map transfer (households_table round64 scenario)) = Fin (1 / 35184372088832)"
  unfolding scenario_table by (simp add: fsum_def round64_eval)

text \<open>
  C8: the concrete scenario.  \<open>L = 70\<close> for both households, \<open>phi\<close> is \<open>1.0\<close> and \<open>1.6\<close> (the
  binary64 number the literal \<open>1.6\<close> denotes), \<open>L_phi\<close> is \<open>70\<close> and \<open>112\<close>, the total resources
  are \<open>200\<close>, \<open>c_bar\<close> is \<open>200/182\<close> rounded, about \<open>1.0989\<close>, the targets are about \<open>76.92\<close>
  and \<open>123.08\<close>, the transfers about \<open>-23.08\<close> and \<open>+23.08\<close>, their sum is about \<open>0\<close>, and
  both consistency checks pass.  "About" is to the digits shown.
\<close>

theorem concrete_scenario:
  "map L (households_table round64 scenario) = [70, 70]
   \<and> map phi (households_table round64 scenario) = [Fin 1, round64 (16 / 10)]
   \<and> map L_phi (households_table round64 scenario) = [Fin 70, Fin 112]
   \<and> TOTAL_RESOURCES round64 scenario = Fin 200
   \<and> total_adjusted_life round64 scenario = Fin 182
   \<and> c_bar round64 scenario = round64 (200 / 182)
   \<and> approx (c_bar round64 scenario) (10989 / 10000) (5 / 100000)
   \<and> approx (target_lifetime_consumption (households_table round64 scenario ! 0)) (7692 / 100) (5 / 1000)
   \<and> approx (target_lifetime_consumption (households_table round64 scenario ! 1)) (12308 / 100) (5 / 1000)
   \<and> approx (transfer (households_table round64 scenario ! 0)) (- 2308 / 100) (5 / 1000)
   \<and> approx (transfer (households_table round64 scenario ! 1)) (2308 / 100) (5 / 1000)
   \<and> approx (fsum round64 (map transfer (households_table round64 scenario))) 0 (1 / 10 ^ 8)
   \<and> run round64 scenario = Inr (households_table round64 scenario)"
  unfolding scenario_run scenario_transfer_sum scenario_sums scenario_c_bar round64_8_5
    round64_200_182
  unfolding scenario_table
  by (simp add: approx_def)

lemma significand_upper:
  assumes "0 < a"
  shows "round_half_even (a / quantum a) \<le> 2 ^ 53"
proof -
  define e where "e = max (ilog2 a) (- 1022)"
  have q: "quantum a = 2 powi (e - 52)" by (simp add: quantum_def e_def)
  have "a < 2 powi (ilog2 a + 1)" using ilog2_bounds [OF assms] by simp
  also have "\<dots> \<le> 2 powi (e + 1)" by (simp add: two_powi_le_iff e_def)
  finally have "a < 2 ^ 53 * quantum a" using two_powi_split [of e] by (simp add: q)
  then have "a / quantum a \<le> of_int (2 ^ 53)"
    using quantum_pos [of a] by (simp add: field_simps)
  then show ?thesis by (rule round_half_even_le)
qed

lemma two_powi_diff_nat:
  assumes "e' \<le> e"
  shows "(2::real) powi (e - 52) = 2 ^ nat (e - e') * 2 powi (e' - 52)"
proof -
  have "(2::real) powi ((e - e') + (e' - 52)) = 2 powi (e - e') * 2 powi (e' - 52)"
    by (rule power_int_add) simp
  moreover have "(2::real) powi (e - e') = 2 ^ nat (e - e')"
    using assms by (simp add: power_int_nonneg_exp)
  ultimately show ?thesis by simp
qed

lemma round_to_grid:
  assumes y: "y = of_int n * 2 powi (e - 52)" and n: "0 < n" "n \<le> 2 ^ 53" and e: "- 1022 \<le> e"
  shows "round_to (quantum y) y = y"
proof -
  have pos: "0 < y" using n(1) by (simp add: y two_powi_pos)
  have "\<exists>m. y = of_int m * quantum y"
  proof (cases "n = 2 ^ 53")
    case True
    then have "real_of_int n = 2 ^ 53" by simp
    then have y': "y = 2 powi (e + 1)" using two_powi_split [of e] by (simp add: y)
    have "ilog2 y = e + 1"
      by (rule ilog2_eqI) (simp_all add: y' two_powi_less_iff)
    then have "quantum y = 2 powi (e + 1 - 52)" using e by (simp add: quantum_def max_def)
    then have "y = of_int (2 ^ 52) * quantum y"
      using two_powi_split' [of "e + 1"] by (simp add: y')
    then show ?thesis ..
  next
    case False
    then have "n < 2 ^ 53" using n(2) by simp
    then have "real_of_int n < 2 ^ 53"
      by (metis of_int_less_iff of_int_numeral of_int_power)
    then have "y < 2 ^ 53 * 2 powi (e - 52)"
      unfolding y using two_powi_pos [of "e - 52"] by (intro mult_strict_right_mono)
    then have "y < 2 powi (e + 1)" using two_powi_split [of e] by simp
    moreover have "2 powi (ilog2 y) \<le> y" using ilog2_bounds [OF pos] by simp
    ultimately have "(2::real) powi (ilog2 y) < 2 powi (e + 1)" by linarith
    then have "ilog2 y \<le> e" by (simp add: two_powi_less_iff)
    then have le: "max (ilog2 y) (- 1022) \<le> e" using e by simp
    define k where "k = nat (e - max (ilog2 y) (- 1022))"
    have q: "2 powi (e - 52) = 2 ^ k * quantum y"
      unfolding quantum_def k_def using le by (rule two_powi_diff_nat)
    have "y = of_int n * 2 powi (e - 52)" by (fact y)
    also have "\<dots> = of_int n * (2 ^ k * quantum y)" by (simp only: q)
    also have "\<dots> = of_int (n * 2 ^ k) * quantum y" by simp
    finally show ?thesis ..
  qed
  then obtain m where m: "y = of_int m * quantum y" ..
  have "y / quantum y = of_int m"
    using quantum_pos [of y] by (subst m) simp
  then have "round_to (quantum y) y = of_int m * quantum y"
    by (simp add: round_to_def)
  then show ?thesis using m by simp
qed

lemma round64_idem:
  assumes "round64 x = Fin y"
  shows "round64 y = Fin y"
proof (cases "x = 0")
  case True
  then show ?thesis using assms by (auto simp add: round64_def)
next
  case False
  define a where "a = \<bar>x\<bar>"
  define n where "n = round_half_even (a / quantum a)"
  define e where "e = max (ilog2 a) (- 1022)"
  define m where "m = round_to (quantum a) a"
  have a: "0 < a" using False by (simp add: a_def)
  have m: "m = of_int n * 2 powi (e - 52)"
    by (simp add: m_def round_to_def n_def quantum_def e_def)
  have n0: "0 \<le> n" unfolding n_def using a quantum_pos [of a]
    by (intro round_half_even_ge) simp
  have n1: "n \<le> 2 ^ 53" unfolding n_def using a by (rule significand_upper)
  have ov: "overflow (0 < x) m = Fin y"
    using assms False by (simp add: round64_def a_def m_def)
  then have fin: "m < 2 ^ 1024" and y: "y = (if 0 < x then m else - m)"
    by (auto simp add: overflow_def split: if_splits)
  show ?thesis
  proof (cases "n = 0")
    case True
    then show ?thesis using y by (simp add: m round64_def)
  next
    case nz: False
    then have n: "0 < n" using n0 by simp
    have e: "- 1022 \<le> e" by (simp add: e_def)
    have fixed: "round_to (quantum m) m = m" using m n n1 e by (rule round_to_grid)
    have mpos: "0 < m" using n by (simp add: m two_powi_pos)
    show ?thesis
    proof (cases "0 < x")
      case True
      then show ?thesis using y mpos fixed fin by (simp add: round64_def overflow_def)
    next
      case neg: False
      then show ?thesis using y mpos fixed fin by (simp add: round64_def overflow_def)
    qed
  qed
qed

section \<open>Net worth after redistribution\<close>

lemma elder_and_newborn_c_bar:
  "c_bar round64 elder_and_newborn = Fin (1070162287691999 / 36028797018963968)"
  by (simp add: elder_and_newborn_def pipeline_defs round64_eval)

lemma elder_and_newborn_table:
  "households_table round64 elder_and_newborn =
     [\<lparr>household_id = 1, age = 99, dependents = 0, net_worth = Fin 3,
       phi = Fin 1, L = 1, L_phi = Fin 1,
       target_lifetime_consumption = Fin (1070162287691999 / 36028797018963968),
       annual_consumption = Fin (1070162287691999 / 36028797018963968),
       transfer = Fin (- (3344257149037497 / 1125899906842624)),
       net_worth_after_redistribution = Fin (33442571490375 / 1125899906842624),
       mu = Fin (2369081053981355 / 70368744177664)\<rparr>,
      \<lparr>household_id = 2, age = 0, dependents = 0, net_worth = Fin 0,
       phi = Fin 1, L = 100, L_phi = Fin 100,
       target_lifetime_consumption = Fin (3344257149037497 / 1125899906842624),
       annual_consumption = Fin (1070162287691999 / 36028797018963968),
       transfer = Fin (3344257149037497 / 1125899906842624),
       net_worth_after_redistribution = Fin (3344257149037497 / 1125899906842624),
       mu = Fin (2369081053981355 / 70368744177664)\<rparr>]"
  unfolding households_table_def elder_and_newborn_c_bar
  by (simp add: elder_and_newborn_def allocate_def target_of_def transfer_of_def L_phi_of_def
      L_of_def phi_of_def marginal_utility_def remaining_life_years_def equivalence_scale_def
      weight64 MAX_LIFE_EXPECTANCY_def of_int_f_def fsub_def round64_eval)

lemma elder_and_newborn_run:
  "run round64 elder_and_newborn = Inr (households_table round64 elder_and_newborn)"
  unfolding run_def elder_and_newborn_table
  by (simp add: TOTAL_RESOURCES_def elder_and_newborn_def isclose_def fsum_def fsub_def
      of_int_f_def round64_eval)

lemma scenario_table_exact:
  "households_table exact scenario =
     [\<lparr>household_id = 1, age = 30, dependents = 0, net_worth = Fin 100,
       phi = Fin 1, L = 70, L_phi = Fin 70,
       target_lifetime_consumption = Fin (7000 / 91),
       annual_consumption = Fin (100 / 91),
       transfer = Fin (- (2100 / 91)),
       net_worth_after_redistribution = Fin (7000 / 91),
       mu = Fin (91 / 100)\<rparr>,
      \<lparr>household_id = 2, age = 30, dependents = 2, net_worth = Fin 100,
       phi = Fin (16 / 10), L = 70, L_phi = Fin 112,
       target_lifetime_consumption = Fin (11200 / 91),
       annual_consumption = Fin (160 / 91),
       transfer = Fin (2100 / 91),
       net_worth_after_redistribution = Fin (11200 / 91),
       mu = Fin (91 / 100)\<rparr>]"
  by (simp add: scenario_def pipeline_defs exact_def)

lemma fmul_Fin_range: "fmul rnd a b = Fin t \<Longrightarrow> \<exists>x. rnd x = Fin t"
  by (cases a; cases b) (auto split: if_splits)

text \<open>
  C4: \<open>net_worth_after_redistribution\<close> is \<open>net_worth + transfer\<close>, and the script says in
  its comment that this should equal \<open>target_lifetime_consumption\<close>.  It does not in the
  table the script computes for \<open>elder_and_newborn\<close> (both consistency checks pass there):
  the first household has the target \<open>1070162287691999 / 2\<^sup>5\<^sup>5\<close> and the net worth after
  redistribution \<open>33442571490375 / 2\<^sup>5\<^sup>0\<close>, because the difference
  \<open>target - net_worth\<close> was rounded before \<open>net_worth\<close> was added back.
\<close>

theorem after_redistribution_counterexample:
  "run round64 elder_and_newborn = Inr (households_table round64 elder_and_newborn)
   \<and> target_lifetime_consumption (households_table round64 elder_and_newborn ! 0)
       = Fin (1070162287691999 / 2 ^ 55)
   \<and> net_worth_after_redistribution (households_table round64 elder_and_newborn ! 0)
       = Fin (33442571490375 / 2 ^ 50)
   \<and> net_worth_after_redistribution (households_table round64 elder_and_newborn ! 0)
       = fadd round64 (net_worth (households_table round64 elder_and_newborn ! 0))
                      (transfer (households_table round64 elder_and_newborn ! 0))
   \<and> net_worth_after_redistribution (households_table round64 elder_and_newborn ! 0)
       \<noteq> target_lifetime_consumption (households_table round64 elder_and_newborn ! 0)"
  unfolding elder_and_newborn_run
  unfolding elder_and_newborn_table
  by (simp add: round64_eval)

text \<open>
  The two columns do agree in a row whose difference \<open>target - net_worth\<close> is computed
  without rounding, and in every row of finite numbers when the arithmetic is exact.
\<close>

lemma after_redistribution:
  "(r \<in> set (households_table round64 hs) \<longrightarrow>
      net_worth_after_redistribution r = fadd round64 (net_worth r) (transfer r)
      \<and> transfer r = fsub round64 (target_lifetime_consumption r) (net_worth r)
      \<and> (target_lifetime_consumption r = Fin t \<and> net_worth r = Fin w \<and> transfer r = Fin (t - w)
           \<longrightarrow> net_worth_after_redistribution r = target_lifetime_consumption r))
   \<and> (r' \<in> set (households_table exact hs)
        \<and> is_finite (target_lifetime_consumption r') \<and> is_finite (net_worth r')
      \<longrightarrow> net_worth_after_redistribution r' = target_lifetime_consumption r')"
proof (intro conjI impI)
  assume "r \<in> set (households_table round64 hs)"
  then obtain h where h: "r = allocate round64 (c_bar round64 hs) h" by (rule in_table)
  show "net_worth_after_redistribution r = fadd round64 (net_worth r) (transfer r)"
    and tr: "transfer r = fsub round64 (target_lifetime_consumption r) (net_worth r)"
    by (simp_all add: h allocate_def transfer_of_def)
  assume e: "target_lifetime_consumption r = Fin t \<and> net_worth r = Fin w \<and> transfer r = Fin (t - w)"
  then have "fmul round64 (c_bar round64 hs) (L_phi_of round64 h) = Fin t"
    by (simp add: h allocate_def target_of_def)
  then obtain x where "round64 x = Fin t" using fmul_Fin_range by blast
  then have "round64 t = Fin t" by (rule round64_idem)
  moreover have "net_worth_after_redistribution r = fadd round64 (Fin w) (Fin (t - w))"
    using e by (simp add: h allocate_def)
  ultimately show "net_worth_after_redistribution r = target_lifetime_consumption r"
    using e by simp
next
  assume a: "r' \<in> set (households_table exact hs)
             \<and> is_finite (target_lifetime_consumption r') \<and> is_finite (net_worth r')"
  then obtain h where h: "r' = allocate exact (c_bar exact hs) h" by (auto elim: in_table)
  from a obtain t w where "target_of exact (c_bar exact hs) h = Fin t" "net_worth h = Fin w"
    by (cases "target_of exact (c_bar exact hs) h"; cases "net_worth h")
       (simp_all add: h allocate_def)
  then show "net_worth_after_redistribution r' = target_lifetime_consumption r'"
    by (simp add: h allocate_def transfer_of_def fsub_def exact_def)
qed

section \<open>Zero total adjusted need\<close>















section \<open>Marginal utility\<close>











section \<open>Monotonicity\<close>





































lemma elder_and_newborn_targets_exact:
  "map target_lifetime_consumption (households_table exact elder_and_newborn)
   = [Fin (3 / 101), Fin (300 / 101)]"
  by (simp add: elder_and_newborn_def pipeline_defs exact_def)


section \<open>Monotonicity in dependents\<close>




section \<open>Monotonicity in age\<close>




section \<open>Conservation\<close>











lemma fsum_exact_Fin: "fsum exact (map Fin xs) = Fin (sum_list xs)"
proof -
  have "foldl (fadd exact) (Fin a) (map Fin xs) = Fin (a + sum_list xs)" for a
    by (induction xs arbitrary: a) (simp_all add: exact_def add.assoc)
  moreover have "filter (\<lambda>x. x \<noteq> NaN) (map Fin xs) = map Fin xs"
    by (induction xs) simp_all
  ultimately show ?thesis by (simp add: fsum_def)
qed

lemma L_phi_of_exact:
  "L_phi_of exact h = Fin (real_of_int (L_of h) * (1 + 3 / 10 * real_of_int (dependents h)))"
  by (simp add: L_phi_of_def phi_of_def equivalence_scale_def of_int_f_def DEPENDENT_WEIGHT_def
      exact_def)

text \<open>
  The closed form itself conserves the pool: when the arithmetic is exact, the targets of a
  table of finite net worths with a positive total adjusted need add up to the total
  resources, and the transfers to zero.
\<close>

lemma conservation_exact:
  assumes fin: "\<forall>h \<in> set hs. is_finite (net_worth h)"
    and need: "flt (Fin 0) (total_adjusted_life exact hs)"
  shows "fsum exact (map target_lifetime_consumption (households_table exact hs))
         = TOTAL_RESOURCES exact hs"
    and "fsum exact (map transfer (households_table exact hs)) = Fin 0"
proof -
  define x where "x h = real_of_int (L_of h) * (1 + 3 / 10 * real_of_int (dependents h))" for h
  define w where "w h = fin_value (net_worth h)" for h :: household
  define N where "N = sum_list (map x hs)"
  define T where "T = sum_list (map w hs)"
  have nw: "net_worth h = Fin (w h)" if "h \<in> set hs" for h
    using fin that by (cases "net_worth h") (auto simp add: w_def fin_value_def)
  have "map net_worth hs = map Fin (map w hs)" using nw by simp
  then have total: "TOTAL_RESOURCES exact hs = Fin T"
    unfolding TOTAL_RESOURCES_def T_def by (simp only: fsum_exact_Fin)
  have "map (L_phi_of exact) hs = map Fin (map x hs)" by (simp add: L_phi_of_exact x_def)
  then have "total_adjusted_life exact hs = Fin N"
    unfolding total_adjusted_life_def N_def by (simp only: fsum_exact_Fin)
  then have N: "total_adjusted_life exact hs = Fin N" "0 < N" using need by simp_all
  have c: "c_bar exact hs = Fin (T / N)"
    using N by (simp add: c_bar_def total exact_def)
  have t: "target_of exact (Fin (T / N)) h = Fin (T / N * x h)" for h
    by (simp add: target_of_def L_phi_of_exact x_def exact_def)
  have "map target_lifetime_consumption (households_table exact hs)
        = map Fin (map (\<lambda>h. T / N * x h) hs)"
    by (simp add: households_table_def allocate_def c t)
  then have "fsum exact (map target_lifetime_consumption (households_table exact hs))
             = Fin (sum_list (map (\<lambda>h. T / N * x h) hs))"
    by (simp only: fsum_exact_Fin)
  also have tn: "sum_list (map (\<lambda>h. T / N * x h) hs) = T / N * N"
    unfolding N_def by (rule sum_list_const_mult)
  also have "\<dots> = T" using N(2) by simp
  finally show "fsum exact (map target_lifetime_consumption (households_table exact hs))
                = TOTAL_RESOURCES exact hs"
    by (simp add: total)
  have "map transfer (households_table exact hs) = map Fin (map (\<lambda>h. T / N * x h - w h) hs)"
    using nw by (simp add: households_table_def allocate_def transfer_of_def fsub_def c t exact_def)
  then have "fsum exact (map transfer (households_table exact hs))
             = Fin (sum_list (map (\<lambda>h. T / N * x h - w h) hs))"
    by (simp only: fsum_exact_Fin)
  also have "sum_list (map (\<lambda>h. T / N * x h - w h) hs)
             = sum_list (map (\<lambda>h. T / N * x h) hs) - sum_list (map w hs)"
    by (rule sum_list_subtractf)
  also have "\<dots> = T / N * N - T" by (simp only: T_def [symmetric] tn)
  also have "\<dots> = 0" using N(2) by simp
  finally show "fsum exact (map transfer (households_table exact hs)) = Fin 0" .
qed








end
